theory Spec2Isabelle
  imports Complex_Main
begin

section \<open>Trajectory returns of \<open>maro/rl/utils/trajectory_utils.py\<close>\<close>

text \<open>
  The module computes K-step and lambda returns over one trajectory with numpy.
  The embedding keeps the two functions, their argument order and their names.
  Array entries are idealised as real numbers: float64 rounding is not modelled, and
  neither is the cast numpy applies when a value is assigned into an integer-typed
  reward array. A one-dimensional ndarray is a list, and the two arrays the caller
  passes in are two distinct objects held in a record, so that the in-place assignment
  \<^verbatim>\<open>rewards[-1] = values[-1]\<close> is visible in the state a call returns.
  Every exception the interpreter or numpy can raise on the way is a value of \<open>error\<close>.
\<close>

subsection \<open>Data model\<close>

datatype error = AssertionError | IndexError | ValueError | TypeError

record arrays =
  rewards :: "real list"
  "values" :: "real list option"

subsection \<open>The numpy and Python primitives the module uses\<close>

text \<open>\<^verbatim>\<open>xs[i:]\<close>: a negative start counts from the end and is clipped at the front.\<close>

definition slice_from :: "real list \<Rightarrow> int \<Rightarrow> real list" where
  "slice_from xs i =
     (if i < 0 then drop (nat (int (length xs) + i)) xs else drop (nat i) xs)"

text \<open>\<^verbatim>\<open>np.pad(xs, (0, n))\<close>: \<open>n\<close> zeros appended; a negative width raises ValueError.\<close>

definition np_pad :: "real list \<Rightarrow> int \<Rightarrow> error + real list" where
  "np_pad xs n = (if n < 0 then Inl ValueError else Inr (xs @ replicate (nat n) 0))"

text \<open>
  \<^verbatim>\<open>x + y\<close> on one-dimensional arrays, with numpy's broadcasting: equal lengths add
  elementwise, an operand of length one is stretched to the other's length, and any other
  pair of shapes raises ValueError.
\<close>

definition np_add :: "real list \<Rightarrow> real list \<Rightarrow> error + real list" where
  "np_add x y =
     (if length x = length y then Inr (map2 (+) x y)
      else if length x = 1 then Inr (map (\<lambda>b. x ! 0 + b) y)
      else if length y = 1 then Inr (map (\<lambda>a. a + y ! 0) x)
      else Inl ValueError)"

text \<open>\<^verbatim>\<open>x * c\<close> for an array \<open>x\<close> and a scalar \<open>c\<close>.\<close>

definition np_scale :: "real list \<Rightarrow> real \<Rightarrow> real list" where
  "np_scale x c = map (\<lambda>a. a * c) x"

text \<open>
  \<^verbatim>\<open>reduce(lambda x, y: x*c + y, ys, acc)\<close>: the accumulator is on the left; an
  exception in a step ends the fold.
\<close>

fun reduce_axpy :: "real \<Rightarrow> real list list \<Rightarrow> real list \<Rightarrow> error + real list" where
  "reduce_axpy c [] acc = Inr acc"
| "reduce_axpy c (y # ys) acc =
     (case np_add (np_scale acc c) y of
        Inl e \<Rightarrow> Inl e
      | Inr acc' \<Rightarrow> reduce_axpy c ys acc')"

text \<open>
  The same \<^verbatim>\<open>reduce\<close> without an initial value: the first item is the
  accumulator, and an empty iterable raises TypeError.
\<close>

definition reduce_axpy_noinit :: "real \<Rightarrow> real list list \<Rightarrow> error + real list" where
  "reduce_axpy_noinit c ys =
     (case ys of [] \<Rightarrow> Inl TypeError | y # ys' \<Rightarrow> reduce_axpy c ys' y)"

subsection \<open>\<open>get_k_step_returns\<close>\<close>

text \<open>
  Both functions open with the same sentinel test on their horizon,
  \<^verbatim>\<open>if k < 0: k = len(rewards) - 1\<close>.
\<close>

definition resolve_steps :: "nat \<Rightarrow> int \<Rightarrow> int" where
  "resolve_steps n k = (if k < 0 then int n - 1 else k)"

text \<open>
  Lines 26 to 30: the sentinel, the list of shifted and zero-padded reward arrays for
  \<open>i = min(k, len(rewards)) - 1\<close> down to \<open>0\<close>, the initial array
  \<^verbatim>\<open>np.pad(values[k:], (0, k))\<close> (with the unclamped \<open>k\<close>) or
  \<^verbatim>\<open>np.zeros(len(rewards))\<close>, and the fold. The shift widths come from a
  \<^verbatim>\<open>range\<close> that ends at \<open>0\<close>, so they are never negative.
\<close>

definition shifted_rewards :: "real list \<Rightarrow> nat \<Rightarrow> real list" where
  "shifted_rewards rs i = drop i rs @ replicate i 0"

definition k_step_compute ::
    "real list \<Rightarrow> real \<Rightarrow> int \<Rightarrow> real list option \<Rightarrow> error + real list" where
  "k_step_compute rs discount k0 vals =
     (let n = length rs;
          k = resolve_steps n k0;
          shifted = map (shifted_rewards rs) (rev [0 ..< nat (min k (int n))])
      in case (case vals of
                 Some vs \<Rightarrow> np_pad (slice_from vs k) k
               | None \<Rightarrow> Inr (replicate n 0)) of
           Inl e \<Rightarrow> Inl e
         | Inr init \<Rightarrow> reduce_axpy discount shifted init)"

text \<open>
  The whole function: the assertion of line 23, the in-place assignment of lines 24 and
  25 (\<^verbatim>\<open>values[-1]\<close> on an empty array raises IndexError), then the computation
  on the arrays as they are after the assignment. The first component is the caller's
  arrays after the call, also when the call raises.
\<close>

definition get_k_step_returns ::
    "arrays \<Rightarrow> real \<Rightarrow> int \<Rightarrow> arrays \<times> (error + real list)" where
  "get_k_step_returns st discount k =
     (case values st of
        None \<Rightarrow> (st, k_step_compute (rewards st) discount k None)
      | Some vs \<Rightarrow>
          if length (rewards st) = length vs then
            (if length vs = 0 then (st, Inl IndexError)
             else
               let st' = st\<lparr>rewards := (rewards st)[length (rewards st) - 1 := vs ! (length vs - 1)]\<rparr>
               in (st', k_step_compute (rewards st') discount k (Some vs)))
          else (st, Inl AssertionError))"

subsection \<open>\<open>get_lambda_returns\<close>\<close>

text \<open>
  The list comprehension of lines 62 and 63: one call of \<open>get_k_step_returns\<close> per
  horizon, in the order given, each on the arrays the previous call left; the first
  exception ends it.
\<close>

fun k_step_returns_for ::
    "arrays \<Rightarrow> real \<Rightarrow> int list \<Rightarrow> arrays \<times> (error + real list list)" where
  "k_step_returns_for st discount [] = (st, Inr [])"
| "k_step_returns_for st discount (k # ks) =
     (case get_k_step_returns st discount k of
        (st', Inl e) \<Rightarrow> (st', Inl e)
      | (st', Inr r) \<Rightarrow>
          (case k_step_returns_for st' discount ks of
             (st'', Inl e) \<Rightarrow> (st'', Inl e)
           | (st'', Inr rs) \<Rightarrow> (st'', Inr (r # rs))))"

text \<open>
  \<^verbatim>\<open>range(truncate_steps-1, 0, -1)\<close> is \<open>rev [1 .. truncate_steps - 1]\<close>. The power
  \<^verbatim>\<open>lmda**(truncate_steps-1)\<close> is only reached after the fold of line 61 has
  succeeded, that is with \<open>truncate_steps \<ge> 2\<close>, so its exponent is a natural number.
\<close>

definition get_lambda_returns ::
    "arrays \<Rightarrow> real \<Rightarrow> real \<Rightarrow> int \<Rightarrow> arrays \<times> (error + real list)" where
  "get_lambda_returns st discount lmda truncate_steps0 =
     (let n = length (rewards st);
          truncate_steps = resolve_steps n truncate_steps0
      in if lmda = 0 then get_k_step_returns st discount 1
         else if lmda = 1 then get_k_step_returns st discount truncate_steps
         else
           let T = min truncate_steps (int n - 1)
           in case k_step_returns_for st discount (rev [1 .. T - 1]) of
                (st1, Inl e) \<Rightarrow> (st1, Inl e)
              | (st1, Inr ks) \<Rightarrow>
                  (case reduce_axpy_noinit lmda ks of
                     Inl e \<Rightarrow> (st1, Inl e)
                   | Inr pre_truncate \<Rightarrow>
                       (case get_k_step_returns st1 discount T of
                          (st2, Inl e) \<Rightarrow> (st2, Inl e)
                        | (st2, Inr r) \<Rightarrow>
                            (st2, np_add (map (\<lambda>a. (1 - lmda) * a) pre_truncate)
                                         (np_scale r (lmda ^ nat (T - 1)))))))"

subsection \<open>The closed forms of the specification\<close>

text \<open>
  The reward beyond the end of the trajectory is zero; the bootstrap value is the value
  estimate where one was supplied and the index is in range, and zero otherwise.
\<close>

definition reward :: "real list \<Rightarrow> nat \<Rightarrow> real" where
  "reward rs j = (if j < length rs then rs ! j else 0)"

definition bootstrap :: "real list option \<Rightarrow> nat \<Rightarrow> real" where
  "bootstrap vals j =
     (case vals of None \<Rightarrow> 0 | Some vs \<Rightarrow> if j < length vs then vs ! j else 0)"

definition k_step_formula ::
    "real list \<Rightarrow> real list option \<Rightarrow> real \<Rightarrow> nat \<Rightarrow> nat \<Rightarrow> real" where
  "k_step_formula rs vals discount K t =
     (\<Sum>i<K. discount ^ i * reward rs (t + i)) + discount ^ K * bootstrap vals (t + K)"

text \<open>
  The condition of the assertion of line 23,
  \<^verbatim>\<open>values is None or len(rewards) == len(values)\<close>, as a predicate on the arrays.
\<close>

definition lengths_agree :: "arrays \<Rightarrow> bool" where
  "lengths_agree st =
     (case values st of None \<Rightarrow> True | Some vs \<Rightarrow> length (rewards st) = length vs)"

text \<open>
  The reward array, and the caller's arrays, as a call with values supplied leaves them:
  the last reward replaced by the last value, everything else as it was.
\<close>

definition post_rewards :: "arrays \<Rightarrow> real list" where
  "post_rewards st =
     (case values st of
        None \<Rightarrow> rewards st
      | Some vs \<Rightarrow> (rewards st)[length (rewards st) - 1 := vs ! (length vs - 1)])"

definition post_arrays :: "arrays \<Rightarrow> arrays" where
  "post_arrays st = st\<lparr>rewards := post_rewards st\<rparr>"

text \<open>
  The lambda return of the specification over a family \<open>R\<close> of K-step returns, \<open>R n t\<close>
  being the \<open>n\<close>-step return at index \<open>t\<close>, truncated at horizon \<open>T\<close>.
\<close>

definition lambda_formula :: "(nat \<Rightarrow> nat \<Rightarrow> real) \<Rightarrow> real \<Rightarrow> nat \<Rightarrow> nat \<Rightarrow> real" where
  "lambda_formula R lmda T t =
     (1 - lmda) * (\<Sum>n = 1 ..< T. lmda ^ (n - 1) * R n t) + lmda ^ (T - 1) * R T t"

section \<open>Auxiliary facts\<close>

subsection \<open>The fold of \<open>reduce\<close> is a Horner scheme\<close>

lemma np_add_same_length:
  "length x = length y \<Longrightarrow> np_add x y = Inr (map2 (+) x y)"
  by (simp add: np_add_def)

lemma reduce_axpy_rev_upt:
  assumes "length acc = N" and "\<And>i. i < m \<Longrightarrow> length (F i) = N"
  shows "reduce_axpy c (map F (rev [0 ..< m])) acc
         = Inr (map (\<lambda>t. acc ! t * c ^ m + (\<Sum>i<m. c ^ i * F i ! t)) [0 ..< N])"
  using assms
proof (induction m arbitrary: acc)
  case 0
  then show ?case by (auto simp: map_nth)
next
  case (Suc m)
  define acc' where "acc' = map2 (+) (np_scale acc c) (F m)"
  have len: "length acc' = N"
    using Suc.prems by (simp add: acc'_def np_scale_def)
  have step: "np_add (np_scale acc c) (F m) = Inr acc'"
    using Suc.prems by (simp add: acc'_def np_add_same_length np_scale_def)
  have nth: "acc' ! t = acc ! t * c + F m ! t" if "t < N" for t
    using that Suc.prems by (simp add: acc'_def np_scale_def)
  have "reduce_axpy c (map F (rev [0 ..< Suc m])) acc
        = reduce_axpy c (map F (rev [0 ..< m])) acc'"
    by (simp add: step)
  also have "\<dots> = Inr (map (\<lambda>t. acc' ! t * c ^ m + (\<Sum>i<m. c ^ i * F i ! t)) [0 ..< N])"
    using Suc.IH [OF len] Suc.prems(2) by simp
  also have "map (\<lambda>t. acc' ! t * c ^ m + (\<Sum>i<m. c ^ i * F i ! t)) [0 ..< N]
           = map (\<lambda>t. acc ! t * c ^ Suc m + (\<Sum>i<Suc m. c ^ i * F i ! t)) [0 ..< N]"
    by (rule map_cong) (simp_all add: nth algebra_simps)
  finally show ?case .
qed

subsection \<open>The K-step computation\<close>

lemma length_shifted_rewards:
  "i \<le> length rs \<Longrightarrow> length (shifted_rewards rs i) = length rs"
  by (simp add: shifted_rewards_def)

lemma nth_shifted_rewards:
  "i \<le> length rs \<Longrightarrow> t < length rs \<Longrightarrow> shifted_rewards rs i ! t = reward rs (t + i)"
  by (auto simp: shifted_rewards_def reward_def nth_append add.commute)

lemma k_step_init_Some:
  assumes "0 \<le> k" and "nat k \<le> length vs"
  shows "np_pad (slice_from vs k) k
         = Inr (map (\<lambda>t. bootstrap (Some vs) (t + nat k)) [0 ..< length vs])"
proof -
  have "drop (nat k) vs @ replicate (nat k) 0
        = map (\<lambda>t. bootstrap (Some vs) (t + nat k)) [0 ..< length vs]"
    using assms by (intro nth_equalityI) (auto simp: nth_append bootstrap_def add.commute)
  then show ?thesis
    using assms by (simp add: np_pad_def slice_from_def)
qed

lemma k_step_compute_formula:
  assumes "0 \<le> resolve_steps (length rs) k"
    and "resolve_steps (length rs) k \<le> int (length rs)"
    and "case vals of None \<Rightarrow> True | Some vs \<Rightarrow> length vs = length rs"
  shows "k_step_compute rs discount k vals
         = Inr (map (k_step_formula rs vals discount (nat (resolve_steps (length rs) k)))
                    [0 ..< length rs])"
proof -
  define K where "K = nat (resolve_steps (length rs) k)"
  have K: "K \<le> length rs" and kk: "resolve_steps (length rs) k = int K"
    using assms(1,2) by (simp_all add: K_def)
  define init where "init = map (\<lambda>t. bootstrap vals (t + K)) [0 ..< length rs]"
  have init: "(case vals of Some vs \<Rightarrow> np_pad (slice_from vs (int K)) (int K)
                | None \<Rightarrow> Inr (replicate (length rs) 0)) = Inr init"
  proof (cases vals)
    case None
    have "replicate (length rs) (0::real) = init"
      by (intro nth_equalityI) (simp_all add: init_def None bootstrap_def)
    then show ?thesis by (simp add: None)
  next
    case (Some vs)
    then have "length vs = length rs" using assms(3) by simp
    then show ?thesis
      using k_step_init_Some [of "int K" vs] K by (simp add: Some init_def)
  qed
  have "k_step_compute rs discount k vals
        = reduce_axpy discount (map (shifted_rewards rs) (rev [0 ..< K])) init"
    using K init by (cases vals) (simp_all add: k_step_compute_def Let_def kk)
  also have "\<dots> = Inr (map (\<lambda>t. init ! t * discount ^ K
                               + (\<Sum>i<K. discount ^ i * shifted_rewards rs i ! t))
                          [0 ..< length rs])"
    using K by (intro reduce_axpy_rev_upt) (simp_all add: init_def length_shifted_rewards)
  also have "map (\<lambda>t. init ! t * discount ^ K
                     + (\<Sum>i<K. discount ^ i * shifted_rewards rs i ! t)) [0 ..< length rs]
           = map (k_step_formula rs vals discount K) [0 ..< length rs]"
    using K by (intro map_cong) (simp_all add: init_def k_step_formula_def nth_shifted_rewards)
  finally show ?thesis by (simp add: K_def)
qed

subsection \<open>Calls and the arrays they leave\<close>

lemma post_rewards_length [simp]: "length (post_rewards st) = length (rewards st)"
  by (simp add: post_rewards_def split: option.splits)

lemma post_arrays_simps [simp]:
  "values (post_arrays st) = values st"
  "rewards (post_arrays st) = post_rewards st"
  by (simp_all add: post_arrays_def)

lemma post_rewards_idem [simp]: "post_rewards (post_arrays st) = post_rewards st"
  by (simp add: post_rewards_def post_arrays_def split: option.splits)

lemma post_arrays_idem [simp]: "post_arrays (post_arrays st) = post_arrays st"
  using post_rewards_idem [of st] by (simp add: post_arrays_def)

lemma lengths_agree_post [simp]: "lengths_agree (post_arrays st) = lengths_agree st"
  by (simp add: lengths_agree_def split: option.splits)

lemma get_k_step_returns_state:
  assumes "1 \<le> length (rewards st)" and "lengths_agree st"
  shows "get_k_step_returns st discount k
         = (post_arrays st, k_step_compute (post_rewards st) discount k (values st))"
  using assms
  by (auto simp: get_k_step_returns_def lengths_agree_def post_arrays_def post_rewards_def
           split: option.splits)

lemma get_k_step_returns_formula:
  assumes "1 \<le> length (rewards st)" and "lengths_agree st"
    and "0 \<le> resolve_steps (length (rewards st)) k"
    and "resolve_steps (length (rewards st)) k \<le> int (length (rewards st))"
  shows "get_k_step_returns st discount k
         = (post_arrays st,
            Inr (map (k_step_formula (post_rewards st) (values st) discount
                        (nat (resolve_steps (length (rewards st)) k)))
                     [0 ..< length (rewards st)]))"
proof -
  have "case values st of None \<Rightarrow> True | Some vs \<Rightarrow> length vs = length (post_rewards st)"
    using assms(2) by (simp add: lengths_agree_def split: option.splits)
  then have "k_step_compute (post_rewards st) discount k (values st)
        = Inr (map (k_step_formula (post_rewards st) (values st) discount
                      (nat (resolve_steps (length (post_rewards st)) k)))
                   [0 ..< length (post_rewards st)])"
    using assms(3,4) by (intro k_step_compute_formula) simp_all
  then show ?thesis
    by (simp add: get_k_step_returns_state [OF assms(1,2)])
qed

lemma get_k_step_returns_nat:
  assumes "1 \<le> length (rewards st)" and "lengths_agree st"
    and "k \<le> length (rewards st)"
  shows "get_k_step_returns st discount (int k)
         = (post_arrays st,
            Inr (map (k_step_formula (post_rewards st) (values st) discount k)
                     [0 ..< length (rewards st)]))"
  using get_k_step_returns_formula [OF assms(1,2), of "int k" discount] assms(3)
  by (simp add: resolve_steps_def)

subsection \<open>The general path of the lambda return\<close>

lemma k_step_returns_for_post:
  assumes "1 \<le> length (rewards st)" and "lengths_agree st"
    and "\<And>k. k \<in> set ks \<Longrightarrow> k \<le> length (rewards st)"
  shows "k_step_returns_for (post_arrays st) discount (map int ks)
         = (post_arrays st,
            Inr (map (\<lambda>k. map (k_step_formula (post_rewards st) (values st) discount k)
                              [0 ..< length (rewards st)]) ks))"
  using assms(3)
proof (induction ks)
  case Nil
  then show ?case by simp
next
  case (Cons k ks)
  have "get_k_step_returns (post_arrays st) discount (int k)
        = (post_arrays st,
           Inr (map (k_step_formula (post_rewards st) (values st) discount k)
                    [0 ..< length (rewards st)]))"
    using get_k_step_returns_nat [of "post_arrays st" k discount] assms(1,2) Cons.prems
    by simp
  then show ?case
    using Cons by simp
qed

lemma k_step_returns_for_first:
  assumes "1 \<le> length (rewards st)" and "lengths_agree st"
    and "\<And>k. k \<in> set (k0 # ks) \<Longrightarrow> k \<le> length (rewards st)"
  shows "k_step_returns_for st discount (map int (k0 # ks))
         = (post_arrays st,
            Inr (map (\<lambda>k. map (k_step_formula (post_rewards st) (values st) discount k)
                              [0 ..< length (rewards st)]) (k0 # ks)))"
  using get_k_step_returns_nat [OF assms(1,2), of k0 discount]
        k_step_returns_for_post [OF assms(1,2), of ks discount] assms(3)
  by simp

lemma rev_upto_int: "rev [1 .. int m] = map (\<lambda>i. int (Suc i)) (rev [0 ..< m])"
proof (induction m)
  case 0
  then show ?case by simp
next
  case (Suc m)
  have "[1 .. int (Suc m)] = [1 .. int m] @ [int (Suc m)]"
    using upto_rec2 [of 1 "int (Suc m)"] by simp
  then show ?case
    using Suc by simp
qed

lemma np_add_final:
  assumes "length p = N" and "length r = N"
  shows "np_add (map (\<lambda>a. c * a) p) (np_scale r d)
         = Inr (map (\<lambda>t. c * p ! t + d * r ! t) [0 ..< N])"
proof -
  have "map2 (+) (map (\<lambda>a. c * a) p) (map (\<lambda>a. a * d) r)
        = map (\<lambda>t. c * p ! t + d * r ! t) [0 ..< N]"
    using assms by (intro nth_equalityI) simp_all
  then show ?thesis
    using assms by (simp add: np_add_same_length np_scale_def)
qed

lemma lambda_general_path:
  assumes len: "1 \<le> length (rewards st)" and agree: "lengths_agree st"
    and lm: "lmda \<noteq> 0" "lmda \<noteq> 1"
    and T: "min (resolve_steps (length (rewards st)) T0) (int (length (rewards st)) - 1)
            = int (Suc (Suc m))"
  shows "get_lambda_returns st discount lmda T0
         = (post_arrays st,
            Inr (map (lambda_formula
                        (\<lambda>n t. k_step_formula (post_rewards st) (values st) discount n t)
                        lmda (Suc (Suc m)))
                     [0 ..< length (rewards st)]))"
proof -
  define N where "N = length (rewards st)"
  define R where
    "R = (\<lambda>k. map (k_step_formula (post_rewards st) (values st) discount k) [0 ..< N])"
  have lenR [simp]: "length (R k) = N" for k
    by (simp add: R_def)
  have nthR [simp]: "R k ! t = k_step_formula (post_rewards st) (values st) discount k t"
    if "t < N" for k t
    using that by (simp add: R_def)
  have bound: "Suc (Suc m) \<le> N"
    using T by (simp add: N_def)
  have list: "rev [1 .. int (Suc (Suc m)) - 1] = map int (Suc m # map Suc (rev [0 ..< m]))"
    using rev_upto_int [of "Suc m"] by (simp add: comp_def)
  have calls: "k_step_returns_for st discount (rev [1 .. int (Suc (Suc m)) - 1])
               = (post_arrays st, Inr (R (Suc m) # map (\<lambda>i. R (Suc i)) (rev [0 ..< m])))"
    unfolding list
    using bound
    by (subst k_step_returns_for_first [OF len agree]) (auto simp: R_def N_def comp_def)
  have pre: "reduce_axpy_noinit lmda (R (Suc m) # map (\<lambda>i. R (Suc i)) (rev [0 ..< m]))
             = Inr (map (\<lambda>t. \<Sum>i<Suc m. lmda ^ i * R (Suc i) ! t) [0 ..< N])"
  proof -
    have "reduce_axpy lmda (map (\<lambda>i. R (Suc i)) (rev [0 ..< m])) (R (Suc m))
          = Inr (map (\<lambda>t. R (Suc m) ! t * lmda ^ m + (\<Sum>i<m. lmda ^ i * R (Suc i) ! t))
                     [0 ..< N])"
      by (intro reduce_axpy_rev_upt) simp_all
    also have "map (\<lambda>t. R (Suc m) ! t * lmda ^ m + (\<Sum>i<m. lmda ^ i * R (Suc i) ! t)) [0 ..< N]
             = map (\<lambda>t. \<Sum>i<Suc m. lmda ^ i * R (Suc i) ! t) [0 ..< N]"
      by (simp add: mult.commute)
    finally show ?thesis
      by (simp add: reduce_axpy_noinit_def)
  qed
  have post: "get_k_step_returns (post_arrays st) discount (int (Suc (Suc m)))
              = (post_arrays st, Inr (R (Suc (Suc m))))"
    using get_k_step_returns_nat [of "post_arrays st" "Suc (Suc m)" discount] len agree bound
    by (simp add: R_def N_def)
  have final:
    "np_add (map (\<lambda>a. (1 - lmda) * a)
                 (map (\<lambda>t. \<Sum>i<Suc m. lmda ^ i * R (Suc i) ! t) [0 ..< N]))
            (np_scale (R (Suc (Suc m))) (lmda ^ Suc m))
     = Inr (map (lambda_formula
                   (\<lambda>n t. k_step_formula (post_rewards st) (values st) discount n t)
                   lmda (Suc (Suc m))) [0 ..< N])"
  proof -
    have shift: "(\<Sum>n = 1 ..< Suc (Suc m). lmda ^ (n - 1) * R n ! t)
                 = (\<Sum>i<Suc m. lmda ^ i * R (Suc i) ! t)" for t
      using sum.atLeast_Suc_lessThan_Suc_shift [of "\<lambda>n. lmda ^ (n - 1) * R n ! t" 0 "Suc m"]
      by (simp add: atLeast0LessThan comp_def del: sum.lessThan_Suc sum.op_ivl_Suc)
    have "map (\<lambda>t. (1 - lmda) * map (\<lambda>t. \<Sum>i<Suc m. lmda ^ i * R (Suc i) ! t) [0 ..< N] ! t
                     + lmda ^ Suc m * R (Suc (Suc m)) ! t) [0 ..< N]
          = map (lambda_formula
                   (\<lambda>n t. k_step_formula (post_rewards st) (values st) discount n t)
                   lmda (Suc (Suc m))) [0 ..< N]"
    proof (rule map_cong [OF refl])
      fix t assume "t \<in> set [0 ..< N]"
      then have t: "t < N" by simp
      have "(\<Sum>n = 1 ..< Suc (Suc m).
               lmda ^ (n - 1) * k_step_formula (post_rewards st) (values st) discount n t)
            = (\<Sum>n = 1 ..< Suc (Suc m). lmda ^ (n - 1) * R n ! t)"
        using t by simp
      then show "(1 - lmda) * map (\<lambda>t. \<Sum>i<Suc m. lmda ^ i * R (Suc i) ! t) [0 ..< N] ! t
                   + lmda ^ Suc m * R (Suc (Suc m)) ! t
                 = lambda_formula
                     (\<lambda>n t. k_step_formula (post_rewards st) (values st) discount n t)
                     lmda (Suc (Suc m)) t"
        unfolding lambda_formula_def using t shift [of t]
        by (simp del: sum.lessThan_Suc sum.op_ivl_Suc)
    qed
    then show ?thesis
      by (subst np_add_final [where N = N]) simp_all
  qed
  have expo: "nat (int (Suc (Suc m)) - 1) = Suc m"
    by simp
  show ?thesis
    unfolding get_lambda_returns_def Let_def T calls
    by (simp only: lm if_False prod.case sum.case pre post final expo N_def [symmetric])
qed

text \<open>
  The general path with at most one horizon left after clamping: the list built at lines
  62 and 63 is empty, no call of \<open>get_k_step_returns\<close> is made, and \<^verbatim>\<open>reduce\<close>
  raises TypeError.
\<close>

lemma lambda_general_path_empty:
  assumes "lmda \<noteq> 0" and "lmda \<noteq> 1"
    and "min (resolve_steps (length (rewards st)) T0) (int (length (rewards st)) - 1) \<le> 1"
  shows "get_lambda_returns st discount lmda T0 = (st, Inl TypeError)"
proof -
  have "rev [1 .. min (resolve_steps (length (rewards st)) T0) (int (length (rewards st)) - 1) - 1] = []"
    using assms(3) by simp
  then show ?thesis
    unfolding get_lambda_returns_def Let_def
    using assms(1,2) by (simp add: reduce_axpy_noinit_def)
qed

subsection \<open>Where the truncation horizon is clamped, and what a length mismatch raises\<close>

lemma lambda_general_path_clamped:
  assumes "lmda \<noteq> 1" and "1 \<le> length (rewards st)"
    and "int (length (rewards st)) - 1 \<le> T"
  shows "get_lambda_returns st discount lmda T
         = get_lambda_returns st discount lmda (int (length (rewards st)) - 1)"
proof (cases "lmda = 0")
  case True
  then show ?thesis
    by (simp add: get_lambda_returns_def)
next
  case False
  have clamp: "min (resolve_steps (length (rewards st)) T) (int (length (rewards st)) - 1)
               = int (length (rewards st)) - 1"
    "min (resolve_steps (length (rewards st)) (int (length (rewards st)) - 1))
         (int (length (rewards st)) - 1)
     = int (length (rewards st)) - 1"
    using assms(2,3) by (simp_all add: resolve_steps_def)
  show ?thesis
    unfolding get_lambda_returns_def Let_def clamp
    using False assms(1) by simp
qed

lemma k_step_returns_for_mismatch:
  assumes "values st = Some vs" and "length vs \<noteq> length (rewards st)"
  shows "k_step_returns_for st discount (k # ks) = (st, Inl AssertionError)"
  using assms by (simp add: get_k_step_returns_def)

lemma lambda_mismatch_error:
  assumes "values st = Some vs" and "length vs \<noteq> length (rewards st)"
  shows "get_lambda_returns st discount lmda T
         = (st, Inl (if lmda = 0 \<or> lmda = 1
                        \<or> 2 \<le> min (resolve_steps (length (rewards st)) T)
                                   (int (length (rewards st)) - 1)
                     then AssertionError else TypeError))"
proof -
  define T' where
    "T' = min (resolve_steps (length (rewards st)) T) (int (length (rewards st)) - 1)"
  have direct: "get_k_step_returns st discount k = (st, Inl AssertionError)" for k
    using assms by (simp add: get_k_step_returns_def)
  show ?thesis
  proof (cases "lmda = 0 \<or> lmda = 1")
    case True
    then show ?thesis
      by (auto simp: get_lambda_returns_def direct)
  next
    case False
    show ?thesis
    proof (cases "2 \<le> T'")
      case True
      then have "[1 .. T' - 1] = [1 .. T' - 1 - 1] @ [T' - 1]"
        using upto_rec2 [of 1 "T' - 1"] by simp
      then have "rev [1 .. T' - 1] = (T' - 1) # rev [1 .. T' - 1 - 1]"
        by simp
      then have "k_step_returns_for st discount (rev [1 .. T' - 1]) = (st, Inl AssertionError)"
        using k_step_returns_for_mismatch [OF assms] by simp
      then show ?thesis
        using False True
        unfolding get_lambda_returns_def Let_def T'_def [symmetric]
        by simp
    next
      case small: False
      then have "min (resolve_steps (length (rewards st)) T) (int (length (rewards st)) - 1) \<le> 1"
        unfolding T'_def by linarith
      then have "get_lambda_returns st discount lmda T = (st, Inl TypeError)"
        using False by (intro lambda_general_path_empty) simp_all
      then show ?thesis
        using False small by (simp add: T'_def)
    qed
  qed
qed

section \<open>Properties\<close>

lemmas eval_defs =
  get_k_step_returns_def get_lambda_returns_def k_step_compute_def resolve_steps_def
  np_pad_def slice_from_def np_add_def np_scale_def shifted_rewards_def
  reduce_axpy_noinit_def Let_def upt_rec eval_nat_numeral

lemmas eval_formulas =
  k_step_formula_def lambda_formula_def reward_def bootstrap_def post_rewards_def
  post_arrays_def lengths_agree_def resolve_steps_def lessThan_Suc upt_rec eval_nat_numeral

text \<open>
  C1. For a reward sequence of length \<open>N \<ge> 1\<close>, values absent or of the same length, and
  a horizon \<open>K\<close> with \<open>1 \<le> K \<le> N\<close> or negative (then resolved to \<open>N - 1\<close>),
  \<open>get_k_step_returns\<close> returns the array whose entry at every index \<open>t < N\<close> is
  \<open>(\<Sum>i<K'. discount ^ i * reward (t + i)) + discount ^ K' * bootstrap (t + K')\<close> with
  \<open>K' = min K N\<close>, the rewards being those after the last one was replaced by the last
  value where values were supplied.
\<close>

theorem k_step_returns_closed_form:
  assumes "N = length (rewards st)" and "1 \<le> N" and "lengths_agree st"
    and "(1 \<le> K \<and> K \<le> int N) \<or> K < 0"
  shows "get_k_step_returns st discount K
         = (post_arrays st,
            Inr (map (k_step_formula (post_rewards st) (values st) discount
                        (nat (min (resolve_steps N K) (int N))))
                     [0 ..< N]))"
proof -
  have range: "0 \<le> resolve_steps N K" "resolve_steps N K \<le> int N"
    using assms(2,4) by (auto simp: resolve_steps_def)
  have "get_k_step_returns st discount K
        = (post_arrays st,
           Inr (map (k_step_formula (post_rewards st) (values st) discount
                       (nat (resolve_steps N K))) [0 ..< N]))"
    using get_k_step_returns_formula [of st K discount] range assms(1,2,3) by simp
  then show ?thesis
    using range by (simp add: min_absorb1)
qed

theorem k_step_returns_closed_form_witness:
  "5 = length (rewards \<lparr>rewards = [3, 2, 4, 1, 5], values = Some [4, 7, 1, 3, 6]\<rparr>)
   \<and> (1::nat) \<le> 5
   \<and> lengths_agree \<lparr>rewards = [3, 2, 4, 1, 5], values = Some [4, 7, 1, 3, 6]\<rparr>
   \<and> ((1 \<le> (4::int) \<and> (4::int) \<le> int 5) \<or> (4::int) < 0)
   \<and> get_k_step_returns \<lparr>rewards = [3, 2, 4, 1, 5], values = Some [4, 7, 1, 3, 6]\<rparr> (4 / 5) 4
       = (\<lparr>rewards = [3, 2, 4, 1, 6], values = Some [4, 7, 1, 3, 6]\<rparr>,
          Inr [6331 / 625, 1114 / 125, 216 / 25, 29 / 5, 6])"
  using k_step_returns_closed_form
          [of 5 "\<lparr>rewards = [3, 2, 4, 1, 5], values = Some [4, 7, 1, 3, 6]\<rparr>" 4 "4 / 5"]
  by (simp add: eval_formulas)

text \<open>
  C2. For a reward sequence of length \<open>N\<close>, values absent or of the same length, lambda
  strictly between 0 and 1, and a truncation horizon whose clamped value
  \<open>T' = min T (N - 1)\<close> (a negative \<open>T\<close> resolved to \<open>N - 1\<close>) is at least 2,
  \<open>get_lambda_returns\<close> returns at every index \<open>t\<close> the value
  \<open>(1 - lmda) * (\<Sum>n = 1 ..< T'. lmda ^ (n - 1) * R n t) + lmda ^ (T' - 1) * R T' t\<close>, where
  \<open>R n\<close> is the array \<open>get_k_step_returns\<close> returns for the horizon \<open>n\<close> on the same
  arrays.
\<close>

theorem lambda_returns_closed_form:
  assumes "N = length (rewards st)" and "2 \<le> N" and "lengths_agree st"
    and "0 < lmda" and "lmda < 1"
    and "T' = nat (min (resolve_steps N T) (int N - 1))" and "2 \<le> T'"
  shows "\<exists>R. (\<forall>n \<in> {1 .. T'}.
                 get_k_step_returns st discount (int n) = (post_arrays st, Inr (R n))
                 \<and> length (R n) = N)
            \<and> get_lambda_returns st discount lmda T
                = (post_arrays st,
                   Inr (map (lambda_formula (\<lambda>n t. R n ! t) lmda T') [0 ..< N]))"
proof -
  define R where
    "R = (\<lambda>k. map (k_step_formula (post_rewards st) (values st) discount k) [0 ..< N])"
  define m where "m = T' - 2"
  have m: "T' = Suc (Suc m)"
    using assms(7) by (simp add: m_def)
  have "nat (min (resolve_steps N T) (int N - 1)) = Suc (Suc m)"
    using assms(6) m by simp
  then have "min (resolve_steps N T) (int N - 1) = int (Suc (Suc m))"
    by linarith
  then have T: "min (resolve_steps (length (rewards st)) T) (int (length (rewards st)) - 1)
                = int (Suc (Suc m))"
    using assms(1) by simp
  have bound: "T' \<le> N"
    using assms(6,2) by simp
  have len: "1 \<le> length (rewards st)"
    using assms(1,2) by simp
  have calls: "get_k_step_returns st discount (int n) = (post_arrays st, Inr (R n))
               \<and> length (R n) = N" if "n \<in> {1 .. T'}" for n
    using that bound get_k_step_returns_nat [OF len assms(3), of n discount] assms(1)
    by (simp add: R_def)
  have "map (lambda_formula (\<lambda>n t. k_step_formula (post_rewards st) (values st) discount n t)
               lmda T') [0 ..< N]
        = map (lambda_formula (\<lambda>n t. R n ! t) lmda T') [0 ..< N]"
    by (rule map_cong) (simp_all add: lambda_formula_def R_def)
  then have "get_lambda_returns st discount lmda T
             = (post_arrays st, Inr (map (lambda_formula (\<lambda>n t. R n ! t) lmda T') [0 ..< N]))"
    using lambda_general_path [OF len assms(3) _ _ T, of lmda discount] assms(1,4,5) m
    by simp
  with calls show ?thesis
    by blast
qed

theorem lambda_returns_closed_form_witness:
  "5 = length (rewards \<lparr>rewards = [3, 2, 4, 1, 5], values = Some [4, 7, 1, 3, 6]\<rparr>)
   \<and> (2::nat) \<le> 5
   \<and> lengths_agree \<lparr>rewards = [3, 2, 4, 1, 5], values = Some [4, 7, 1, 3, 6]\<rparr>
   \<and> (0::real) < 3 / 5 \<and> (3 / 5 :: real) < 1
   \<and> (3::nat) = nat (min (resolve_steps 5 3) (int 5 - 1)) \<and> (2::nat) \<le> 3
   \<and> get_lambda_returns \<lparr>rewards = [3, 2, 4, 1, 5], values = Some [4, 7, 1, 3, 6]\<rparr>
         (4 / 5) (3 / 5) 3
       = (\<lparr>rewards = [3, 2, 4, 1, 6], values = Some [4, 7, 1, 3, 6]\<rparr>,
          Inr [24463 / 3125, 18866 / 3125, 968 / 125, 29 / 5, 6])"
proof -
  let ?st = "\<lparr>rewards = [3, 2, 4, 1, 5], values = Some [4, 7, 1, 3, 6]\<rparr>"
  have hyps: "5 = length (rewards ?st)" "(2::nat) \<le> 5" "lengths_agree ?st"
    "(0::real) < 3 / 5" "(3 / 5 :: real) < 1"
    "(3::nat) = nat (min (resolve_steps 5 3) (int 5 - 1))" "(2::nat) \<le> 3"
    by (simp_all add: lengths_agree_def resolve_steps_def)
  obtain R where
    calls: "\<forall>n \<in> {1 .. 3::nat}.
              get_k_step_returns ?st (4 / 5) (int n) = (post_arrays ?st, Inr (R n))
              \<and> length (R n) = 5"
    and result: "get_lambda_returns ?st (4 / 5) (3 / 5) 3
                 = (post_arrays ?st,
                    Inr (map (lambda_formula (\<lambda>n t. R n ! t) (3 / 5) 3) [0 ..< 5]))"
    using lambda_returns_closed_form [OF hyps, of "4 / 5"] by blast
  have eval:
    "get_k_step_returns ?st (4 / 5) 1
     = (\<lparr>rewards = [3, 2, 4, 1, 6], values = Some [4, 7, 1, 3, 6]\<rparr>,
        Inr [43 / 5, 14 / 5, 32 / 5, 29 / 5, 6])"
    "get_k_step_returns ?st (4 / 5) 2
     = (\<lparr>rewards = [3, 2, 4, 1, 6], values = Some [4, 7, 1, 3, 6]\<rparr>,
        Inr [131 / 25, 178 / 25, 216 / 25, 29 / 5, 6])"
    "get_k_step_returns ?st (4 / 5) 3
     = (\<lparr>rewards = [3, 2, 4, 1, 6], values = Some [4, 7, 1, 3, 6]\<rparr>,
        Inr [1087 / 125, 1114 / 125, 216 / 25, 29 / 5, 6])"
    by (simp_all add: eval_defs)
  have "R 1 = [43 / 5, 14 / 5, 32 / 5, 29 / 5, 6]"
    "R 2 = [131 / 25, 178 / 25, 216 / 25, 29 / 5, 6]"
    "R 3 = [1087 / 125, 1114 / 125, 216 / 25, 29 / 5, 6]"
    using calls [THEN bspec, of 1] calls [THEN bspec, of 2] calls [THEN bspec, of 3]
    by (simp_all add: eval)
  then have R: "R (Suc 0) = [43 / 5, 14 / 5, 32 / 5, 29 / 5, 6]"
    "R (Suc (Suc 0)) = [131 / 25, 178 / 25, 216 / 25, 29 / 5, 6]"
    "R (Suc (Suc (Suc 0))) = [1087 / 125, 1114 / 125, 216 / 25, 29 / 5, 6]"
    by (simp_all add: eval_nat_numeral)
  show ?thesis
    using hyps result by (simp add: R eval_formulas)
qed

text \<open>
  C3. On arrays of equal length both functions do fail. With rewards \<open>[1, 2]\<close>, values
  \<open>[3, 4]\<close> and \<open>k = 3\<close> the initial array \<^verbatim>\<open>np.pad(values[3:], (0, 3))\<close> of
  the K-step return has three entries, the shifted rewards have two, and the first step
  of the fold raises ValueError (after the last reward was overwritten). On the same
  arrays the lambda return with lambda one half and truncation horizon 5 clamps the
  horizon to 1 and raises the TypeError of the empty \<^verbatim>\<open>reduce\<close>.
\<close>

theorem k_step_beyond_length_raises:
  "get_k_step_returns \<lparr>rewards = [1, 2], values = Some [3, 4]\<rparr> 1 3
   = (\<lparr>rewards = [1, 4], values = Some [3, 4]\<rparr>, Inl ValueError)
   \<and> get_lambda_returns \<lparr>rewards = [1, 2], values = Some [3, 4]\<rparr> 1 (1 / 2) 5
     = (\<lparr>rewards = [1, 2], values = Some [3, 4]\<rparr>, Inl TypeError)"
  by (simp add: eval_defs)

text \<open>
  C4. With rewards \<open>[1, 2]\<close>, no values, lambda one half and truncation horizon 1, the
  clamped horizon is 1, and the call raises TypeError instead of returning the one-step
  return \<open>[1, 2]\<close>.
\<close>

theorem lambda_horizon_one_raises:
  "get_lambda_returns \<lparr>rewards = [1, 2], values = None\<rparr> 1 (1 / 2) 1
   = (\<lparr>rewards = [1, 2], values = None\<rparr>, Inl TypeError)
   \<and> get_k_step_returns \<lparr>rewards = [1, 2], values = None\<rparr> 1 1
     = (\<lparr>rewards = [1, 2], values = None\<rparr>, Inr [1, 2])"
  by (simp add: eval_defs)

text \<open>
  C5. With lambda equal to one the truncation horizon is passed on unclamped: on rewards
  \<open>[1, 1]\<close> without values and discount 1, the horizon 2 gives \<open>[2, 1]\<close> and the horizon
  \<open>1 = N - 1\<close> gives \<open>[1, 1]\<close>.
\<close>

theorem lambda_one_horizon_not_clamped:
  "get_lambda_returns \<lparr>rewards = [1, 1], values = None\<rparr> 1 1 2
   = (\<lparr>rewards = [1, 1], values = None\<rparr>, Inr [2, 1])
   \<and> get_lambda_returns \<lparr>rewards = [1, 1], values = None\<rparr> 1 1 1
     = (\<lparr>rewards = [1, 1], values = None\<rparr>, Inr [1, 1])"
  by (simp add: eval_defs)

text \<open>
  C6. On a trajectory of length one with values supplied and horizon 2, the K-step return
  has two entries: the initial array \<^verbatim>\<open>np.pad(values[2:], (0, 2))\<close> has length 2 and
  the single reward is broadcast against it.
\<close>

theorem k_step_length_one_returns_two:
  "get_k_step_returns \<lparr>rewards = [5], values = Some [7]\<rparr> 1 2
   = (\<lparr>rewards = [7], values = Some [7]\<rparr>, Inr [7, 7])"
  by (simp add: eval_defs)

text \<open>
  C7. On a reward sequence of length \<open>N \<ge> 1\<close> with values absent or of the same length,
  a call of \<open>get_k_step_returns\<close> leaves the value sequence as it was, leaves every
  reward but the last as it was, leaves the last reward equal to the last value where
  values were supplied and as it was where they were not, and computes its outcome, for
  every horizon, from the rewards as they are after that assignment.
\<close>

theorem k_step_overwrites_last_reward_only:
  assumes "N = length (rewards st)" and "1 \<le> N" and "lengths_agree st"
  shows "\<exists>st' outcome.
           get_k_step_returns st discount k = (st', outcome)
           \<and> values st' = values st
           \<and> length (rewards st') = N
           \<and> (\<forall>i < N - 1. rewards st' ! i = rewards st ! i)
           \<and> rewards st' ! (N - 1)
               = (case values st of None \<Rightarrow> rewards st ! (N - 1) | Some vs \<Rightarrow> vs ! (N - 1))
           \<and> (case values st of None \<Rightarrow> st' = st | Some vs \<Rightarrow> True)
           \<and> outcome = k_step_compute (rewards st') discount k (values st)"
proof -
  have "get_k_step_returns st discount k
        = (post_arrays st, k_step_compute (post_rewards st) discount k (values st))"
    using assms by (intro get_k_step_returns_state) simp_all
  moreover have "\<forall>i < N - 1. post_rewards st ! i = rewards st ! i"
    using assms(1) by (simp add: post_rewards_def split: option.splits)
  moreover have "post_rewards st ! (N - 1)
                 = (case values st of None \<Rightarrow> rewards st ! (N - 1) | Some vs \<Rightarrow> vs ! (N - 1))"
    using assms by (auto simp: post_rewards_def lengths_agree_def split: option.splits)
  moreover have "case values st of None \<Rightarrow> post_arrays st = st | Some vs \<Rightarrow> True"
    by (simp add: post_arrays_def post_rewards_def split: option.splits)
  ultimately show ?thesis
    using assms(1) by simp
qed

theorem k_step_overwrites_last_reward_only_witness:
  "3 = length (rewards \<lparr>rewards = [3, 2, 4], values = Some [4, 7, 1]\<rparr>)
   \<and> (1::nat) \<le> 3
   \<and> lengths_agree \<lparr>rewards = [3, 2, 4], values = Some [4, 7, 1]\<rparr>
   \<and> get_k_step_returns \<lparr>rewards = [3, 2, 4], values = Some [4, 7, 1]\<rparr> 1 1
       = (\<lparr>rewards = [3, 2, 1], values = Some [4, 7, 1]\<rparr>, Inr [10, 3, 1])"
proof -
  let ?st = "\<lparr>rewards = [3, 2, 4], values = Some [4, 7, 1]\<rparr>"
  have hyps: "3 = length (rewards ?st)" "(1::nat) \<le> 3" "lengths_agree ?st"
    by (simp_all add: lengths_agree_def)
  obtain st' outcome where
    call: "get_k_step_returns ?st 1 1 = (st', outcome)"
    and frame: "values st' = values ?st" "length (rewards st') = 3"
      "\<forall>i < 3 - 1. rewards st' ! i = rewards ?st ! i"
      "rewards st' ! (3 - 1)
       = (case values ?st of None \<Rightarrow> rewards ?st ! (3 - 1) | Some vs \<Rightarrow> vs ! (3 - 1))"
    and outcome: "outcome = k_step_compute (rewards st') 1 1 (values ?st)"
    using k_step_overwrites_last_reward_only [OF hyps, of 1 1] by blast
  have "rewards st' ! 0 = 3" "rewards st' ! 1 = 2" "rewards st' ! 2 = 1"
    using frame(3,4) by simp_all
  then have "rewards st' = [3, 2, 1]"
    using frame(2) by (intro nth_equalityI) (auto simp: less_Suc_eq eval_nat_numeral)
  then have st': "st' = \<lparr>rewards = [3, 2, 1], values = Some [4, 7, 1]\<rparr>"
    using frame(1) by (cases st') simp
  have "outcome = Inr [10, 3, 1]"
    unfolding outcome st' by (simp add: eval_defs)
  then show ?thesis
    using hyps call st' by simp
qed

text \<open>
  C8. With lambda equal to zero, \<open>get_lambda_returns\<close> is the call
  \<open>get_k_step_returns\<close> with \<open>k = 1\<close> on the same rewards, discount and values, for
  every truncation horizon: the same outcome and the same arrays afterwards.
\<close>

theorem lambda_zero_is_one_step:
  "get_lambda_returns st discount 0 truncate_steps = get_k_step_returns st discount 1"
  by (simp add: get_lambda_returns_def)

text \<open>
  C9. With rewards \<open>[1, 2]\<close>, a value sequence \<open>[1]\<close> of another length, lambda one half
  and truncation horizon 1, \<open>get_lambda_returns\<close> never reaches the assertion: it raises
  the TypeError of the empty \<^verbatim>\<open>reduce\<close>. The K-step return on the same arrays
  raises the assertion error.
\<close>

theorem lambda_mismatch_not_assertion:
  "get_lambda_returns \<lparr>rewards = [1, 2], values = Some [1]\<rparr> 1 (1 / 2) 1
   = (\<lparr>rewards = [1, 2], values = Some [1]\<rparr>, Inl TypeError)
   \<and> get_k_step_returns \<lparr>rewards = [1, 2], values = Some [1]\<rparr> 1 1
     = (\<lparr>rewards = [1, 2], values = Some [1]\<rparr>, Inl AssertionError)"
  by (simp add: eval_defs)

text \<open>
  C10. When the supplied value sequence has another length than the reward sequence,
  \<open>get_k_step_returns\<close> raises the assertion error and the caller's arrays are exactly
  as they were: the check precedes the assignment to the last reward.
\<close>

theorem k_step_mismatch_leaves_arrays:
  assumes "values st = Some vs" and "length vs \<noteq> length (rewards st)"
  shows "get_k_step_returns st discount k = (st, Inl AssertionError)"
  using assms by (simp add: get_k_step_returns_def)

theorem k_step_mismatch_leaves_arrays_witness:
  "values \<lparr>rewards = [1, 2], values = Some [5]\<rparr> = Some [5]
   \<and> length [5 :: real] \<noteq> length (rewards \<lparr>rewards = [1, 2], values = Some [5]\<rparr>)
   \<and> get_k_step_returns \<lparr>rewards = [1, 2], values = Some [5]\<rparr> (1 / 2) 3
       = (\<lparr>rewards = [1, 2], values = Some [5]\<rparr>, Inl AssertionError)"
  using k_step_mismatch_leaves_arrays
          [of "\<lparr>rewards = [1, 2], values = Some [5]\<rparr>" "[5]" "1 / 2" 3]
  by simp

end
